theory Spec2Isabelle
  imports Main
begin

section \<open>Python values used by \<^verbatim>\<open>rag-service/main.py\<close>\<close>

text \<open>
  A Python \<^verbatim>\<open>str\<close> is modelled as a \<^typ>\<open>string\<close> whose characters are the code
  points 0..255. \<open>py_isspace\<close> is the whitespace test that \<^verbatim>\<open>str.split()\<close> and
  \<^verbatim>\<open>str.strip()\<close> apply, on that range: TAB..CR, FS..US, SPACE, NEL and NBSP.
\<close>

definition py_isspace :: "char \<Rightarrow> bool" where
  "py_isspace c =
     (let n = (of_char c :: nat)
      in (9 \<le> n \<and> n \<le> 13) \<or> (28 \<le> n \<and> n \<le> 32) \<or> n = 133 \<or> n = 160)"

text \<open>
  \<^verbatim>\<open>text.split()\<close>: the maximal runs of non-whitespace characters, in order. The
  first argument of \<open>split_aux\<close> is the word being read.
\<close>

fun split_aux :: "string \<Rightarrow> string \<Rightarrow> string list" where
  "split_aux w [] = (if w = [] then [] else [w])"
| "split_aux w (c # cs) =
     (if py_isspace c
      then (if w = [] then split_aux [] cs else w # split_aux [] cs)
      else split_aux (w @ [c]) cs)"

definition py_split :: "string \<Rightarrow> string list" where
  "py_split text = split_aux [] text"

text \<open>\<^verbatim>\<open>text.strip()\<close>: leading and trailing whitespace removed.\<close>

definition py_strip :: "string \<Rightarrow> string" where
  "py_strip text = rev (dropWhile py_isspace (rev (dropWhile py_isspace text)))"

text \<open>\<^verbatim>\<open>sep.join(xs)\<close>.\<close>

fun join :: "string \<Rightarrow> string list \<Rightarrow> string" where
  "join sep [] = []"
| "join sep [x] = x"
| "join sep (x # y # ys) = x @ sep @ join sep (y # ys)"

text \<open>
  \<^verbatim>\<open>xs[lo:hi]\<close>: a negative bound counts from the end, and both bounds are clipped
  to the list.
\<close>

definition clip_index :: "nat \<Rightarrow> int \<Rightarrow> nat" where
  "clip_index n i = (if i < 0 then nat (max (i + int n) 0) else min (nat i) n)"

definition py_slice :: "'a list \<Rightarrow> int \<Rightarrow> int \<Rightarrow> 'a list" where
  "py_slice xs lo hi =
     (let a = clip_index (length xs) lo; b = clip_index (length xs) hi
      in take (b - a) (drop a xs))"

text \<open>\<^verbatim>\<open>str(n)\<close> for a non-negative integer: its decimal digits.\<close>

fun str_nat :: "nat \<Rightarrow> string" where
  "str_nat n =
     (if n < 10 then [char_of (48 + n)]
      else str_nat (n div 10) @ [char_of (48 + n mod 10)])"

declare str_nat.simps [simp del]

text \<open>\<^verbatim>\<open>s.endswith(suffix)\<close>.\<close>

definition endswith :: "string \<Rightarrow> string \<Rightarrow> bool" where
  "endswith s suf = (length suf \<le> length s \<and> drop (length s - length suf) s = suf)"

text \<open>
  The failures of the service. \<open>HTTPException status detail\<close> is the exception the
  handlers raise themselves; \<open>ValueError\<close> is what \<^verbatim>\<open>range\<close> raises on a zero step;
  \<open>Unhandled\<close> is an exception of a collaborator that no handler catches, with its
  \<^verbatim>\<open>str(e)\<close>.
\<close>

datatype error =
    HTTPException nat string
  | ValueError string
  | Unhandled string

section \<open>The chunker\<close>

text \<open>
  \<^verbatim>\<open>
  def chunk_text(text, chunk_size=500, overlap=50):
      words = text.split()
      chunks = []
      for i in range(0, len(words), chunk_size - overlap):
          chunk = ' '.join(words[i:i + chunk_size])
          if chunk:
              chunks.append(chunk)
      return chunks
  \<close>
  \<open>chunk_loop\<close> is the \<^verbatim>\<open>for\<close> loop over \<^verbatim>\<open>range(0, len(words), step)\<close> from the
  offset \<open>i\<close> on, with the list \<open>chunks\<close> built so far. A range with a negative step
  and a start of 0 is empty, since \<^verbatim>\<open>len(words)\<close> is never negative; a zero step is
  refused by \<^verbatim>\<open>range\<close> itself, before the loop body runs.
\<close>

function chunk_loop :: "string list \<Rightarrow> int \<Rightarrow> int \<Rightarrow> int \<Rightarrow> string list \<Rightarrow> string list" where
  "chunk_loop words chunk_size step i chunks =
     (if 0 < step \<and> i < int (length words)
      then (let chunk = join '' '' (py_slice words i (i + chunk_size))
            in chunk_loop words chunk_size step (i + step)
                 (if chunk \<noteq> [] then chunks @ [chunk] else chunks))
      else chunks)"
  by pat_completeness auto
termination
  by (relation "measure (\<lambda>(words, chunk_size, step, i, chunks). nat (int (length words) - i))")
     auto

declare chunk_loop.simps [simp del]

definition chunk_text :: "string \<Rightarrow> int \<Rightarrow> int \<Rightarrow> error + string list" where
  "chunk_text text chunk_size overlap =
     (let words = py_split text; step = chunk_size - overlap
      in if step = 0 then Inl (ValueError ''range() arg 3 must not be zero'')
         else Inr (chunk_loop words chunk_size step 0 []))"

section \<open>Data of the pipeline\<close>

text \<open>
  The dictionaries of the service have fixed keys and are records. \<open>metadata\<close> is the
  dictionary stored with every indexed chunk, \<^verbatim>\<open>{"page": ..., "source": ...}\<close>; \<open>chunk\<close>
  has the key \<^verbatim>\<open>"text"\<close> as well and is the shape of a page chunk, of an entry of
  \<^verbatim>\<open>all_chunks\<close> and of a citation.
\<close>

record metadata =
  page :: nat
  source :: string

record chunk = metadata +
  "text" :: string

record upload_response =
  message :: string
  chunks_added :: nat

record question_request =
  question :: string
  top_k :: int

record answer_response =
  answer :: string
  citations :: "chunk list"

text \<open>
  The entries \<^verbatim>\<open>results['documents'][0]\<close> and \<^verbatim>\<open>results['metadatas'][0]\<close> of what
  \<^verbatim>\<open>collection.query\<close> returns: the results for the one query embedding.
\<close>

record query_result =
  documents :: "string list"
  metadatas :: "metadata list"

text \<open>
  What pypdf does with the file at \<^verbatim>\<open>pdf_path\<close>. \<open>Inl e\<close>: opening or parsing it
  raised, with \<^verbatim>\<open>str(e)\<close>. \<open>Inr pages\<close>: the pages in order, each one the outcome of
  \<^verbatim>\<open>page.extract_text()\<close>, the text (\<open>Inr\<close>) or the exception raised (\<open>Inl\<close>).
\<close>

type_synonym pdf_reader = "string + (string + string) list"

text \<open>
  A value of the JSON object the generator backend answers with: a string, or any other
  value, which carries what the \<^verbatim>\<open>answer: str\<close> field of \<^verbatim>\<open>AnswerResponse\<close> makes of
  it (the string it is coerced to, or \<open>None\<close> when validation raises).
\<close>

datatype json = JString string | JOther "string option"

text \<open>
  The outcome of the POST to \<^verbatim>\<open>/api/generate\<close>, as far as the handler reads it:
  \<^verbatim>\<open>client.post\<close> raised (a timeout, a refused connection); \<^verbatim>\<open>raise_for_status()\<close>
  raised; \<^verbatim>\<open>response.json()\<close> raised; the body parsed to a value that is not a
  dictionary (with the name of its Python type); the body parsed to a dictionary.
\<close>

datatype backend =
    PostRaised string
  | StatusRaised string
  | JsonRaised string
  | JsonOther string
  | JsonObject "(string \<times> json) list"

text \<open>
  The collaborators: the embedding model, the Chroma collection (whose state is \<open>'idx\<close>),
  \<^verbatim>\<open>uuid.uuid4\<close> and the HTTP client. A call either returns or raises (\<open>Inl\<close>, with
  \<^verbatim>\<open>str(e)\<close>); \<open>index_add\<close> gives the exception raised, if any, and the state of the
  collection after the call. \<open>uuid4 k\<close> is the \<open>k\<close>-th identifier drawn by the request.
\<close>

record ('v, 'idx) services =
  encode :: "string list \<Rightarrow> string + 'v list"
  index_add :: "'idx \<Rightarrow> 'v list \<Rightarrow> string list \<Rightarrow> metadata list \<Rightarrow> string list
                 \<Rightarrow> string option \<times> 'idx"
  index_query :: "'idx \<Rightarrow> 'v \<Rightarrow> int \<Rightarrow> string + query_result"
  uuid4 :: "nat \<Rightarrow> string"
  post :: "string \<Rightarrow> backend"

section \<open>Ingestion\<close>

text \<open>
  \<^verbatim>\<open>UPLOAD_DIR / file.filename\<close> and \<^verbatim>\<open>pdf_path.name\<close>, for a path whose last
  component is a file name.
\<close>

definition path_join :: "string \<Rightarrow> string \<Rightarrow> string" where
  "path_join dir name = (if take 1 name = ''/'' then name else dir @ ''/'' @ name)"

definition path_name :: "string \<Rightarrow> string" where
  "path_name p = rev (takeWhile (\<lambda>c. c \<noteq> CHR ''/'') (rev p))"

definition UPLOAD_DIR :: string where
  "UPLOAD_DIR = ''/app/uploads''"

text \<open>
  \<^verbatim>\<open>
  def extract_text_from_pdf(pdf_path):
      chunks = []
      try:
          with open(pdf_path, 'rb') as file:
              pdf_reader = pypdf.PdfReader(file)
              for page_num, page in enumerate(pdf_reader.pages):
                  text = page.extract_text()
                  if text.strip():
                      chunks.append({"text": text, "page": page_num + 1,
                                     "source": pdf_path.name})
      except Exception as e:
          raise HTTPException(status_code=400, detail=f"Error reading PDF: {str(e)}")
      return chunks
  \<close>
\<close>

fun extract_pages ::
  "string \<Rightarrow> nat \<Rightarrow> (string + string) list \<Rightarrow> chunk list \<Rightarrow> string + chunk list" where
  "extract_pages pdf_path page_num [] chunks = Inr chunks"
| "extract_pages pdf_path page_num (Inl e # pages) chunks = Inl e"
| "extract_pages pdf_path page_num (Inr txt # pages) chunks =
     extract_pages pdf_path (page_num + 1) pages
       (if py_strip txt \<noteq> []
        then chunks @ [\<lparr>page = page_num + 1, source = path_name pdf_path, text = txt\<rparr>]
        else chunks)"

definition extract_text_from_pdf :: "string \<Rightarrow> pdf_reader \<Rightarrow> error + chunk list" where
  "extract_text_from_pdf pdf_path pdf =
     (case (case pdf of Inl e \<Rightarrow> Inl e | Inr pages \<Rightarrow> extract_pages pdf_path 0 pages []) of
        Inl e \<Rightarrow> Inl (HTTPException 400 (''Error reading PDF: '' @ e))
      | Inr chunks \<Rightarrow> Inr chunks)"

text \<open>
  The two nested loops of \<^verbatim>\<open>upload_pdf\<close> that fill \<^verbatim>\<open>all_chunks\<close>; the chunker is
  called with its defaults, \<^verbatim>\<open>chunk_text(page_chunk["text"])\<close>.
\<close>

fun build_chunks :: "chunk list \<Rightarrow> chunk list \<Rightarrow> error + chunk list" where
  "build_chunks [] all_chunks = Inr all_chunks"
| "build_chunks (page_chunk # page_chunks) all_chunks =
     (case chunk_text (text page_chunk) 500 50 of
        Inl e \<Rightarrow> Inl e
      | Inr text_chunks \<Rightarrow>
          build_chunks page_chunks
            (all_chunks @
             map (\<lambda>c. \<lparr>page = page page_chunk, source = source page_chunk, text = c\<rparr>)
               text_chunks))"

text \<open>
  The rest of \<^verbatim>\<open>upload_pdf\<close>, which embeds and stores \<^verbatim>\<open>all_chunks\<close>:
  \<^verbatim>\<open>
      texts = [chunk["text"] for chunk in all_chunks]
      embeddings = embedding_model.encode(texts).tolist()
      ids = [str(uuid.uuid4()) for _ in all_chunks]
      metadatas = [{"page": c["page"], "source": c["source"]} for c in all_chunks]
      collection.add(embeddings=embeddings, documents=texts, metadatas=metadatas, ids=ids)
      return {"message": "PDF indexed successfully", "chunks_added": len(all_chunks)}
  \<close>
  The result is the response or the failure, and the state of the collection when the
  request ends.
\<close>

definition store_chunks ::
  "('v, 'idx) services \<Rightarrow> 'idx \<Rightarrow> chunk list \<Rightarrow> (error + upload_response) \<times> 'idx" where
  "store_chunks env idx all_chunks =
     (let texts = map text all_chunks
      in case encode env texts of
           Inl e \<Rightarrow> (Inl (Unhandled e), idx)
         | Inr embeddings \<Rightarrow>
             (let ids = map (uuid4 env) [0..<length all_chunks];
                  metas = map (\<lambda>c. \<lparr>page = page c, source = source c\<rparr>) all_chunks
              in case index_add env idx embeddings texts metas ids of
                   (Some e, idx') \<Rightarrow> (Inl (Unhandled e), idx')
                 | (None, idx') \<Rightarrow>
                     (Inr \<lparr>message = ''PDF indexed successfully'',
                           chunks_added = length all_chunks\<rparr>, idx')))"

text \<open>
  \<^verbatim>\<open>upload_pdf\<close>, from the check of the file name on. \<open>pdf\<close> is what pypdf finds in the
  saved upload; writing the upload to disk is not part of the model.
\<close>

definition upload_pdf ::
  "('v, 'idx) services \<Rightarrow> 'idx \<Rightarrow> string \<Rightarrow> pdf_reader \<Rightarrow> (error + upload_response) \<times> 'idx" where
  "upload_pdf env idx filename pdf =
     (if \<not> endswith filename ''.pdf''
      then (Inl (HTTPException 400 ''Only PDF files are allowed''), idx)
      else
        case extract_text_from_pdf (path_join UPLOAD_DIR filename) pdf of
          Inl e \<Rightarrow> (Inl e, idx)
        | Inr page_chunks \<Rightarrow>
            (case build_chunks page_chunks [] of
               Inl e \<Rightarrow> (Inl e, idx)
             | Inr all_chunks \<Rightarrow> store_chunks env idx all_chunks))"

section \<open>Retrieval and grounding\<close>

text \<open>
  The loop of \<^verbatim>\<open>ask_question\<close> over
  \<^verbatim>\<open>enumerate(zip(results['documents'][0], results['metadatas'][0]))\<close>.
\<close>

fun context_loop ::
  "nat \<Rightarrow> (string \<times> metadata) list \<Rightarrow> string list \<Rightarrow> chunk list \<Rightarrow> string list \<times> chunk list" where
  "context_loop i [] context_parts cits = (context_parts, cits)"
| "context_loop i ((doc, meta) # rest) context_parts cits =
     context_loop (i + 1) rest
       (context_parts @ [''[Source '' @ str_nat (i + 1) @ ''] '' @ doc])
       (cits @ [\<lparr>page = page meta, source = source meta, text = doc\<rparr>])"

definition newline :: string where
  "newline = [CHR 0x0A]"

definition build_prompt :: "string \<Rightarrow> string \<Rightarrow> string" where
  "build_prompt context qn =
     ''Based on the following context from documents, answer the question. If the answer is not in the context, say so.''
     @ newline @ newline @ ''Context:'' @ newline @ context @ newline @ newline
     @ ''Question: '' @ qn @ newline @ newline
     @ ''Answer (cite sources using [Source N] notation):''"

text \<open>
  The \<^verbatim>\<open>try\<close> block around the generator call: every exception in it becomes an
  \<^verbatim>\<open>HTTPException(500)\<close>. \<^verbatim>\<open>result.get("response", "")\<close> raises AttributeError on a
  value that is not a dictionary, and gives the empty string for a dictionary without the
  key.
\<close>

definition call_ollama :: "backend \<Rightarrow> error + json" where
  "call_ollama r =
     (case r of
        PostRaised e \<Rightarrow> Inl (HTTPException 500 (''Error calling Ollama: '' @ e))
      | StatusRaised e \<Rightarrow> Inl (HTTPException 500 (''Error calling Ollama: '' @ e))
      | JsonRaised e \<Rightarrow> Inl (HTTPException 500 (''Error calling Ollama: '' @ e))
      | JsonOther ty \<Rightarrow>
          Inl (HTTPException 500
                (''Error calling Ollama: '' @ [CHR 0x27] @ ty @ [CHR 0x27]
                 @ '' object has no attribute '' @ [CHR 0x27] @ ''get'' @ [CHR 0x27]))
      | JsonObject result \<Rightarrow>
          Inr (case map_of result ''response'' of None \<Rightarrow> JString [] | Some v \<Rightarrow> v))"

text \<open>\<^verbatim>\<open>AnswerResponse(answer=answer, citations=citations)\<close>.\<close>

definition make_answer :: "json \<Rightarrow> chunk list \<Rightarrow> error + answer_response" where
  "make_answer a cits =
     (case a of
        JString s \<Rightarrow> Inr \<lparr>answer = s, citations = cits\<rparr>
      | JOther (Some s) \<Rightarrow> Inr \<lparr>answer = s, citations = cits\<rparr>
      | JOther None \<Rightarrow> Inl (Unhandled ''ValidationError''))"

definition ask_question ::
  "('v, 'idx) services \<Rightarrow> 'idx \<Rightarrow> question_request \<Rightarrow> error + answer_response" where
  "ask_question env idx request =
     (case encode env [question request] of
        Inl e \<Rightarrow> Inl (Unhandled e)
      | Inr [] \<Rightarrow> Inl (Unhandled ''list index out of range'')
      | Inr (question_embedding # _) \<Rightarrow>
          (case index_query env idx question_embedding (top_k request) of
             Inl e \<Rightarrow> Inl (Unhandled e)
           | Inr results \<Rightarrow>
               if documents results = []
               then Inl (HTTPException 404 ''No documents found. Please upload PDFs first.'')
               else
                 (case context_loop 0 (zip (documents results) (metadatas results)) [] [] of
                    (context_parts, cits) \<Rightarrow>
                      (let context = join (newline @ newline) context_parts;
                           prompt = build_prompt context (question request)
                       in case call_ollama (post env prompt) of
                            Inl e \<Rightarrow> Inl e
                          | Inr a \<Rightarrow> make_answer a cits))))"

section \<open>The failures as the specification names them\<close>

abbreviation UnsupportedFormat :: error where
  "UnsupportedFormat \<equiv> HTTPException 400 ''Only PDF files are allowed''"

abbreviation ExtractionError :: "string \<Rightarrow> error" where
  "ExtractionError cause \<equiv> HTTPException 400 (''Error reading PDF: '' @ cause)"

abbreviation NoDocumentsIndexed :: error where
  "NoDocumentsIndexed \<equiv> HTTPException 404 ''No documents found. Please upload PDFs first.''"

abbreviation GenerationError :: "string \<Rightarrow> error" where
  "GenerationError cause \<equiv> HTTPException 500 (''Error calling Ollama: '' @ cause)"

section \<open>Notions used to state the properties\<close>

text \<open>
  The \<open>k\<close>-th window of the chunker over the words \<open>ws\<close>: the words at the offsets
  \<open>k * step\<close> up to \<open>k * step + chunk_size\<close>, clipped at the end of \<open>ws\<close>.
\<close>

definition window :: "string list \<Rightarrow> int \<Rightarrow> int \<Rightarrow> nat \<Rightarrow> string list" where
  "window ws chunk_size overlap k = take (nat chunk_size) (drop (k * nat (chunk_size - overlap)) ws)"

text \<open>
  The last \<open>n\<close> words of the chunk \<open>c\<close> are the first \<open>n\<close> words of the chunk \<open>c'\<close>.
\<close>

definition shares_overlap :: "nat \<Rightarrow> string \<Rightarrow> string \<Rightarrow> bool" where
  "shares_overlap n c c' =
     (let ws = py_split c; ws' = py_split c'
      in n \<le> length ws \<and> n \<le> length ws' \<and> drop (length ws - n) ws = take n ws')"

text \<open>
  The sub-chunks of a page text under the defaults of the chunker, and the entries of
  \<^verbatim>\<open>all_chunks\<close> they give for a list of page chunks: every entry has the page and the
  source of the page chunk its text was cut from.
\<close>

definition sub_chunks :: "string \<Rightarrow> string list" where
  "sub_chunks txt = (case chunk_text txt 500 50 of Inl e \<Rightarrow> [] | Inr cs \<Rightarrow> cs)"

definition all_chunks_of :: "chunk list \<Rightarrow> chunk list" where
  "all_chunks_of page_chunks =
     concat (map (\<lambda>pc. map (\<lambda>c. \<lparr>page = page pc, source = source pc, text = c\<rparr>)
                          (sub_chunks (text pc))) page_chunks)"

text \<open>
  The page chunks of a document all of whose pages were extracted, with the texts
  \<open>texts\<close>: one for every page that is not blank, numbered from 1.
\<close>

definition page_chunks_of :: "string \<Rightarrow> string list \<Rightarrow> chunk list" where
  "page_chunks_of name texts =
     map (\<lambda>(i, t). \<lparr>page = i + 1, source = name, text = t\<rparr>)
       (filter (\<lambda>(i, t). py_strip t \<noteq> []) (zip [0..<length texts] texts))"

text \<open>
  Stand-ins for the collaborators, to run the handlers on concrete inputs. The index is
  the list of the stored documents with their metadata and answers a query with its
  first \<open>k\<close> entries; the embedding of a text is its length; the generator answers
  with a fixed JSON object.
\<close>

definition demo_services :: "(nat, (string \<times> metadata) list) services" where
  "demo_services =
     \<lparr>encode = (\<lambda>texts. Inr (map length texts)),
      index_add = (\<lambda>idx embeddings texts metas ids. (None, idx @ zip texts metas)),
      index_query = (\<lambda>idx v k. Inr \<lparr>documents = map fst (take (nat k) idx),
                                      metadatas = map snd (take (nat k) idx)\<rparr>),
      uuid4 = str_nat,
      post = (\<lambda>prompt. JsonObject [(''response'', JString ''ok'')])\<rparr>"

text \<open>
  The same stand-ins with an index that refuses an empty batch, as the Chroma collection
  does with a \<^verbatim>\<open>ValueError\<close>, and with a generator that answers with the prompt it
  was sent.
\<close>

definition strict_services :: "(nat, (string \<times> metadata) list) services" where
  "strict_services =
     demo_services\<lparr>index_add :=
       (\<lambda>idx embeddings texts metas ids.
          if ids = [] then (Some ''Expected IDs to be a non-empty list, got 0 IDs'', idx)
          else (None, idx @ zip texts metas))\<rparr>"

definition echo_services :: "(nat, (string \<times> metadata) list) services" where
  "echo_services = demo_services\<lparr>post := (\<lambda>prompt. JsonObject [(''response'', JString prompt)])\<rparr>"

text \<open>\<^verbatim>\<open>int(s)\<close> for a string of decimal digits.\<close>

definition read_nat :: "string \<Rightarrow> nat" where
  "read_nat s = foldl (\<lambda>a c. 10 * a + (of_char c - 48)) 0 s"

section \<open>Words, slices and the windows of the chunker\<close>

lemma split_aux_props:
  "x \<in> set (split_aux w cs) \<Longrightarrow> \<forall>c\<in>set w. \<not> py_isspace c \<Longrightarrow>
   x \<noteq> [] \<and> (\<forall>c\<in>set x. \<not> py_isspace c)"
proof (induction cs arbitrary: w)
  case Nil
  then show ?case by (cases "w = []") simp_all
next
  case (Cons c cs)
  show ?case
  proof (cases "py_isspace c")
    case True
    with Cons.prems(1) have "(x = w \<and> w \<noteq> []) \<or> x \<in> set (split_aux [] cs)"
      by (cases "w = []") simp_all
    then show ?thesis
    proof
      assume "x = w \<and> w \<noteq> []"
      then show ?thesis using Cons.prems(2) by simp
    next
      assume "x \<in> set (split_aux [] cs)"
      then show ?thesis by (rule Cons.IH) simp
    qed
  next
    case False
    with Cons.prems(1) have "x \<in> set (split_aux (w @ [c]) cs)" by simp
    then show ?thesis by (rule Cons.IH) (use Cons.prems(2) False in simp)
  qed
qed

lemma py_split_word:
  "x \<in> set (py_split t) \<Longrightarrow> x \<noteq> [] \<and> (\<forall>c\<in>set x. \<not> py_isspace c)"
  unfolding py_split_def by (rule split_aux_props [of x "[]" t]) simp_all

lemma split_aux_nospace:
  "\<forall>c\<in>set x. \<not> py_isspace c \<Longrightarrow> split_aux w (x @ cs) = split_aux (w @ x) cs"
  by (induction x arbitrary: w) auto

lemma space_isspace: "py_isspace CHR '' ''"
  by (simp add: py_isspace_def)

lemma join_Cons: "ws \<noteq> [] \<Longrightarrow> join sep (x # ws) = x @ sep @ join sep ws"
  by (cases ws) auto

lemma split_join:
  "\<forall>x\<in>set ws. x \<noteq> [] \<and> (\<forall>c\<in>set x. \<not> py_isspace c) \<Longrightarrow> py_split (join '' '' ws) = ws"
proof (induction ws)
  case Nil
  then show ?case by (simp add: py_split_def)
next
  case (Cons x ws)
  show ?case
  proof (cases ws)
    case Nil
    with Cons.prems show ?thesis
      using split_aux_nospace [of x "[]" "[]"] by (simp add: py_split_def)
  next
    case (Cons y ys)
    with Cons.prems Cons.IH show ?thesis
      using split_aux_nospace [of x "[]" "'' '' @ join '' '' ws"]
      by (simp add: py_split_def space_isspace)
  qed
qed

lemma join_nonempty: "ws \<noteq> [] \<Longrightarrow> \<forall>x\<in>set ws. x \<noteq> [] \<Longrightarrow> join sep ws \<noteq> []"
  by (induction sep ws rule: join.induct) auto

lemma clip_index_nat: "clip_index n (int i) = min i n"
  by (simp add: clip_index_def)

lemma slice_nat: "py_slice ws (int i) (int i + int c) = take c (drop i ws)"
proof -
  have b: "clip_index (length ws) (int i + int c) = min (i + c) (length ws)"
    using clip_index_nat [of "length ws" "i + c"] by (simp only: of_nat_add)
  have "take (min (i + c) (length ws) - min i (length ws)) (drop (min i (length ws)) ws)
        = take c (drop i ws)"
  proof (cases "i \<le> length ws")
    case True
    then have m: "min i (length ws) = i" by simp
    have "min (i + c) (length ws) - i = min c (length ws - i)" using True by linarith
    then show ?thesis unfolding m by (simp add: min_def)
  next
    case False
    then show ?thesis by simp
  qed
  then show ?thesis by (simp only: py_slice_def Let_def clip_index_nat b)
qed

lemma div_add_step: "0 < s \<Longrightarrow> (x + s) div s = Suc (x div s)" for s x :: nat
  by (simp add: div_add_self2)

lemma count_step:
  assumes "0 < s" "i < n"
  shows "(n - i + s - 1) div s = Suc ((n - (i + s) + s - 1) div s)"
proof (cases "i + s \<le> n")
  case True
  have e: "n - i + s - 1 = (n - (i + s) + s - 1) + s" using True assms by linarith
  show ?thesis unfolding e by (rule div_add_step [OF assms(1)])
next
  case False
  have z: "n - (i + s) + s - 1 = s - 1" using False by linarith
  have a: "(s - 1) div s = 0" using assms(1) by simp
  have b: "(n - i + s - 1) div s = 1"
  proof (rule div_nat_eqI)
    show "s * 1 \<le> n - i + s - 1" using assms False by simp
    show "n - i + s - 1 < s * Suc 1" using assms False by simp
  qed
  show ?thesis unfolding z a b by simp
qed

lemma loop_windows:
  assumes "0 < s" "0 < c" "\<forall>x\<in>set ws. x \<noteq> []"
  shows "chunk_loop ws (int c) (int s) (int i) acc =
         acc @ map (\<lambda>k. join '' '' (take c (drop (i + k * s) ws)))
                   [0..<(length ws - i + s - 1) div s]"
proof (induction "length ws - i" arbitrary: i acc rule: less_induct)
  case less
  show ?case
  proof (cases "i < length ws")
    case False
    then have "(length ws - i + s - 1) div s = 0" using assms(1) by simp
    with False show ?thesis by (subst chunk_loop.simps) simp
  next
    case True
    let ?w = "take c (drop i ws)"
    have ne: "join '' '' ?w \<noteq> []"
    proof (rule join_nonempty)
      show "?w \<noteq> []" using True assms(2) by simp
      show "\<forall>x\<in>set ?w. x \<noteq> []" using assms(3) by (meson in_set_dropD in_set_takeD)
    qed
    have ih: "chunk_loop ws (int c) (int s) (int (i + s)) (acc @ [join '' '' ?w]) =
          (acc @ [join '' '' ?w]) @ map (\<lambda>k. join '' '' (take c (drop ((i + s) + k * s) ws)))
                   [0..<(length ws - (i + s) + s - 1) div s]"
      by (rule less) (use True assms(1) in simp)
    have unf: "chunk_loop ws (int c) (int s) (int i) acc =
          chunk_loop ws (int c) (int s) (int (i + s)) (acc @ [join '' '' ?w])"
      using True assms(1) ne slice_nat [of ws i c] by (subst chunk_loop.simps) (simp add: Let_def)
    have m: "map (\<lambda>k. join '' '' (take c (drop (i + k * s) ws))) [0..<Suc ((length ws - (i + s) + s - 1) div s)]
        = join '' '' ?w # map (\<lambda>k. join '' '' (take c (drop ((i + s) + k * s) ws))) [0..<(length ws - (i + s) + s - 1) div s]"
      by (simp only: upt_conv_Cons [OF zero_less_Suc] map_Suc_upt [symmetric] list.map map_map o_def)
         (simp add: add.assoc add.commute)
    show ?thesis
      unfolding unf ih count_step [OF assms(1) True] m by simp
  qed
qed

lemma chunk_text_windows:
  assumes "0 < cs" "ov < cs"
  shows "chunk_text t cs ov =
         Inr (map (\<lambda>k. join '' '' (window (py_split t) cs ov k))
                [0..<(length (py_split t) + nat (cs - ov) - 1) div nat (cs - ov)])"
proof -
  have ne: "\<forall>x\<in>set (py_split t). x \<noteq> []" using py_split_word by blast
  have "chunk_loop (py_split t) (int (nat cs)) (int (nat (cs - ov))) (int 0) [] =
        [] @ map (\<lambda>k. join '' '' (take (nat cs) (drop (0 + k * nat (cs - ov)) (py_split t))))
                   [0..<(length (py_split t) - 0 + nat (cs - ov) - 1) div nat (cs - ov)]"
    by (rule loop_windows) (use assms ne in auto)
  then show ?thesis using assms by (simp add: chunk_text_def window_def)
qed

lemma window_subset: "set (window ws cs ov k) \<subseteq> set ws"
proof -
  have "set (window ws cs ov k) \<subseteq> set (drop (k * nat (cs - ov)) ws)"
    unfolding window_def by (rule set_take_subset)
  also have "\<dots> \<subseteq> set ws" by (rule set_drop_subset)
  finally show ?thesis .
qed

lemma split_window:
  "py_split (join '' '' (window (py_split t) cs ov k)) = window (py_split t) cs ov k"
proof (rule split_join, rule ballI)
  fix x
  assume "x \<in> set (window (py_split t) cs ov k)"
  then have "x \<in> set (py_split t)" using window_subset by (rule rev_subsetD)
  then show "x \<noteq> [] \<and> (\<forall>c\<in>set x. \<not> py_isspace c)" by (rule py_split_word)
qed

lemma window_covers:
  assumes "0 \<le> ov" "ov < cs" "j < length ws"
  shows "j div nat (cs - ov) < (length ws + nat (cs - ov) - 1) div nat (cs - ov)"
    and "ws ! j \<in> set (window ws cs ov (j div nat (cs - ov)))"
proof -
  define s where "s = nat (cs - ov)"
  define c where "c = nat cs"
  define n where "n = length ws"
  have s: "0 < s" "s \<le> c" using assms by (simp_all add: s_def c_def)
  have jn: "j < n" using assms(3) by (simp add: n_def)
  have e: "n + s - 1 = (n - 1) + s" using jn by linarith
  have d: "(n - 1 + s) div s = Suc ((n - 1) div s)" by (rule div_add_step [OF s(1)])
  have "j div s \<le> (n - 1) div s" by (rule div_le_mono) (use jn in linarith)
  then have "j div s < (n + s - 1) div s" unfolding e d by linarith
  then show "j div nat (cs - ov) < (length ws + nat (cs - ov) - 1) div nat (cs - ov)"
    by (simp only: s_def n_def)
  define k where "k = j div s"
  have lo: "k * s \<le> j" unfolding k_def by (rule div_times_less_eq_dividend)
  have "j < s + k * s" unfolding k_def by (rule dividend_less_div_times [OF s(1)])
  then have hi: "j - k * s < c" using s(2) lo by linarith
  have len: "j - k * s < length (take c (drop (k * s) ws))"
    using lo hi jn by (simp add: n_def)
  have "take c (drop (k * s) ws) ! (j - k * s) = ws ! j"
    using lo hi jn by (simp add: n_def)
  then have "ws ! j \<in> set (take c (drop (k * s) ws))" using len by (metis nth_mem)
  then show "ws ! j \<in> set (window ws cs ov (j div nat (cs - ov)))"
    by (simp only: window_def k_def s_def c_def)
qed

lemma window_overlap:
  assumes "0 \<le> ov" "ov < cs" "length (window ws cs ov k) = nat cs"
  shows "nat ov \<le> length (window ws cs ov (Suc k))"
    and "drop (nat cs - nat ov) (window ws cs ov k) = take (nat ov) (window ws cs ov (Suc k))"
proof -
  define s where "s = nat (cs - ov)"
  define c where "c = nat cs"
  define v where "v = nat ov"
  have sv: "s + v = c" "c - v = s" "v \<le> c" "c - s = v" using assms(1,2) by (simp_all add: s_def c_def v_def)
  have w0: "window ws cs ov k = take c (drop (k * s) ws)"
    by (simp only: window_def s_def c_def)
  have w1: "window ws cs ov (Suc k) = take c (drop (s + k * s) ws)"
    by (simp only: window_def s_def c_def mult_Suc)
  have "length (take c (drop (k * s) ws)) = c" using assms(3) by (simp only: w0 c_def)
  moreover have "0 < c" using assms(1,2) by (simp add: c_def)
  ultimately have full: "k * s + c \<le> length ws" by (simp add: min_def split: if_splits)
  have "v \<le> length (take c (drop (s + k * s) ws))" using full sv by simp
  then show "nat ov \<le> length (window ws cs ov (Suc k))" by (simp only: w1 v_def)
  have l: "drop s (take c (drop (k * s) ws)) = take v (drop (s + k * s) ws)"
    by (simp add: drop_take sv(4))
  have r: "take v (take c (drop (s + k * s) ws)) = take v (drop (s + k * s) ws)"
    using sv(3) by (simp add: min_def)
  have "drop (c - v) (window ws cs ov k) = take v (window ws cs ov (Suc k))"
    unfolding w0 w1 sv(2) l r ..
  then show "drop (nat cs - nat ov) (window ws cs ov k) = take (nat ov) (window ws cs ov (Suc k))"
    by (simp only: c_def v_def)
qed

section \<open>The chunker: claims\<close>

text \<open>
  Claim C1, as amended. Chunking never loops: \<open>chunk_text\<close> is a total function, its
  loop has a termination proof. When \<open>chunk_size = overlap\<close> the step is zero and the
  call fails with the \<^verbatim>\<open>ValueError\<close> of \<^verbatim>\<open>range\<close>, before any chunk is produced.
  When \<open>chunk_size < overlap\<close> the step is negative, the range is empty and the call
  returns the empty chunk sequence, without a failure.
\<close>

theorem chunk_text_nonpositive_step:
  "(chunk_size = overlap \<longrightarrow>
      chunk_text t chunk_size overlap = Inl (ValueError ''range() arg 3 must not be zero'')) \<and>
   (chunk_size < overlap \<longrightarrow> chunk_text t chunk_size overlap = Inr [])"
proof (intro conjI impI)
  assume "chunk_size = overlap"
  then show "chunk_text t chunk_size overlap = Inl (ValueError ''range() arg 3 must not be zero'')"
    by (simp add: chunk_text_def)
next
  assume neg: "chunk_size < overlap"
  have "chunk_loop (py_split t) chunk_size (chunk_size - overlap) 0 [] = []"
    by (subst chunk_loop.simps) (use neg in simp)
  then show "chunk_text t chunk_size overlap = Inr []"
    using neg by (simp add: chunk_text_def)
qed

theorem chunk_text_nonpositive_step_witness:
  "chunk_text ''a b c'' 2 2 = Inl (ValueError ''range() arg 3 must not be zero'') \<and>
   chunk_text ''a b c'' 1 2 = Inr []"
  using chunk_text_nonpositive_step [of 2 2 "''a b c''"]
        chunk_text_nonpositive_step [of 1 2 "''a b c''"]
  by simp

text \<open>
  Claim C1 as stated fails: with \<open>chunk_size = 1\<close> and \<open>overlap = 2\<close> the call returns
  a chunk sequence, the empty one.
\<close>

theorem chunk_text_smaller_size_returns:
  "(1::int) \<le> 2 \<and> chunk_text ''a b c'' 1 2 = Inr []"
proof -
  have "chunk_loop (py_split ''a b c'') 1 (1 - 2) 0 [] = []"
    by (subst chunk_loop.simps) simp
  then show ?thesis by (simp add: chunk_text_def)
qed

lemma split_abcd: "py_split ''a b c d'' = [''a'', ''b'', ''c'', ''d'']"
  by (simp add: py_split_def py_isspace_def)

text \<open>
  Claim C2 as stated fails: the text \<^verbatim>\<open>a b c d\<close> has more than \<open>chunk_size = 3\<close> words,
  and with \<open>overlap = 2\<close> its last two chunks are \<^verbatim>\<open>c d\<close> and \<^verbatim>\<open>d\<close>, which share one
  word, not two.
\<close>

theorem chunk_text_short_tail:
  "chunk_text ''a b c d'' 3 2 = Inr [''a b c'', ''b c d'', ''c d'', ''d''] \<and>
   3 < length (py_split ''a b c d'') \<and>
   \<not> shares_overlap 2 ''c d'' ''d''"
proof -
  have "chunk_text ''a b c d'' 3 2 = Inr [''a b c'', ''b c d'', ''c d'', ''d'']"
    by (simp add: chunk_text_windows split_abcd window_def upt_rec)
  moreover have "py_split ''d'' = [''d'']" by (simp add: py_split_def py_isspace_def)
  ultimately show ?thesis by (simp add: split_abcd shares_overlap_def)
qed

text \<open>
  Claim C2, as amended. For \<open>0 \<le> overlap < chunk_size\<close> the chunker returns
  \<open>\<lceil>W / step\<rceil>\<close> chunks for a text of \<open>W\<close> words; the words of chunk \<open>k\<close> are the \<open>k\<close>-th
  window; every word of the text is a word of some chunk; and every chunk that holds
  \<open>chunk_size\<close> words and has a successor ends with the \<open>overlap\<close> words its successor
  starts with.
\<close>

theorem chunk_text_coverage_overlap:
  assumes "0 \<le> overlap" "overlap < chunk_size"
  shows "\<exists>chunks. chunk_text t chunk_size overlap = Inr chunks \<and>
           length chunks = (length (py_split t) + nat (chunk_size - overlap) - 1)
                             div nat (chunk_size - overlap) \<and>
           (\<forall>k < length chunks.
              py_split (chunks ! k) = window (py_split t) chunk_size overlap k) \<and>
           (\<forall>w \<in> set (py_split t). \<exists>c \<in> set chunks. w \<in> set (py_split c)) \<and>
           (\<forall>k. Suc k < length chunks \<and> length (py_split (chunks ! k)) = nat chunk_size \<longrightarrow>
                shares_overlap (nat overlap) (chunks ! k) (chunks ! Suc k))"
proof -
  define ws where "ws = py_split t"
  define n where "n = (length ws + nat (chunk_size - overlap) - 1) div nat (chunk_size - overlap)"
  define chunks where "chunks = map (\<lambda>k. join '' '' (window ws chunk_size overlap k)) [0..<n]"
  have pos: "0 < chunk_size" using assms by simp
  have A: "chunk_text t chunk_size overlap = Inr chunks"
    unfolding chunks_def n_def ws_def by (rule chunk_text_windows [OF pos assms(2)])
  have len: "length chunks = n" by (simp add: chunks_def)
  have B: "length chunks = (length (py_split t) + nat (chunk_size - overlap) - 1)
                             div nat (chunk_size - overlap)"
    unfolding len n_def ws_def ..
  have nth: "py_split (chunks ! k) = window ws chunk_size overlap k" if "k < n" for k
  proof -
    have "chunks ! k = join '' '' (window ws chunk_size overlap k)"
      using that by (simp add: chunks_def)
    then show ?thesis unfolding ws_def by (simp only: split_window)
  qed
  have C: "\<forall>k < length chunks. py_split (chunks ! k) = window (py_split t) chunk_size overlap k"
    using nth unfolding len ws_def by blast
  have D: "\<forall>w \<in> set (py_split t). \<exists>c \<in> set chunks. w \<in> set (py_split c)"
  proof
    fix w
    assume "w \<in> set (py_split t)"
    then obtain j where j: "j < length ws" "ws ! j = w"
      unfolding ws_def by (meson in_set_conv_nth)
    define k where "k = j div nat (chunk_size - overlap)"
    have k: "k < n" unfolding k_def n_def by (rule window_covers(1) [OF assms j(1)])
    have "ws ! j \<in> set (window ws chunk_size overlap k)"
      unfolding k_def by (rule window_covers(2) [OF assms j(1)])
    then have "w \<in> set (py_split (chunks ! k))" unfolding nth [OF k] j(2) .
    moreover have "chunks ! k \<in> set chunks" using k len by simp
    ultimately show "\<exists>c \<in> set chunks. w \<in> set (py_split c)" ..
  qed
  have E: "\<forall>k. Suc k < length chunks \<and> length (py_split (chunks ! k)) = nat chunk_size \<longrightarrow>
                shares_overlap (nat overlap) (chunks ! k) (chunks ! Suc k)"
  proof (intro allI impI, elim conjE)
    fix k
    assume sk: "Suc k < length chunks"
      and fl: "length (py_split (chunks ! k)) = nat chunk_size"
    have k1: "Suc k < n" using sk len by simp
    then have k0: "k < n" by simp
    have full: "length (window ws chunk_size overlap k) = nat chunk_size"
      using fl unfolding nth [OF k0] .
    have le: "nat overlap \<le> nat chunk_size" using assms by simp
    have a: "nat overlap \<le> length (window ws chunk_size overlap (Suc k))"
      by (rule window_overlap(1) [OF assms full])
    have b: "drop (nat chunk_size - nat overlap) (window ws chunk_size overlap k) =
             take (nat overlap) (window ws chunk_size overlap (Suc k))"
      by (rule window_overlap(2) [OF assms full])
    show "shares_overlap (nat overlap) (chunks ! k) (chunks ! Suc k)"
      unfolding shares_overlap_def Let_def nth [OF k0] nth [OF k1]
      using a b le full by simp
  qed
  show ?thesis by (rule exI [of _ chunks]) (intro conjI A B C D E)
qed

theorem chunk_text_coverage_overlap_witness:
  "(0::int) \<le> 1 \<and> (1::int) < 2 \<and>
   chunk_text ''a b c'' 2 1 = Inr [''a b'', ''b c'', ''c''] \<and>
   shares_overlap 1 ''a b'' ''b c'' \<and> shares_overlap 1 ''b c'' ''c''"
proof -
  have s: "py_split ''a b c'' = [''a'', ''b'', ''c'']" "py_split ''a b'' = [''a'', ''b'']"
     "py_split ''b c'' = [''b'', ''c'']" "py_split ''c'' = [''c'']"
    by (simp_all add: py_split_def py_isspace_def)
  have h: "(0::int) \<le> 1" "(1::int) < 2" by simp_all
  obtain chunks where c: "chunk_text ''a b c'' 2 1 = Inr chunks"
    "\<forall>k. Suc k < length chunks \<and> length (py_split (chunks ! k)) = nat 2 \<longrightarrow>
                shares_overlap (nat 1) (chunks ! k) (chunks ! Suc k)"
    using chunk_text_coverage_overlap [OF h, of "''a b c''"] by blast
  have e: "chunk_text ''a b c'' 2 1 = Inr [''a b'', ''b c'', ''c'']"
    by (simp add: chunk_text_windows s window_def upt_rec)
  with c(1) have chunks: "chunks = [''a b'', ''b c'', ''c'']" by simp
  have "shares_overlap 1 ''a b'' ''b c''" using c(2) [rule_format, of 0] by (simp add: chunks s)
  moreover have "shares_overlap 1 ''b c'' ''c''" using c(2) [rule_format, of 1] by (simp add: chunks s)
  ultimately show ?thesis using e by simp
qed

section \<open>Ingestion: lemmas and claims\<close>

lemma chunk_text_default: "chunk_text txt 500 50 = Inr (sub_chunks txt)"
  by (simp add: sub_chunks_def chunk_text_def)

lemma build_chunks_eq:
  "build_chunks page_chunks acc = Inr (acc @ all_chunks_of page_chunks)"
proof (induction page_chunks arbitrary: acc)
  case Nil
  show ?case by (simp add: all_chunks_of_def)
next
  case (Cons pc pcs)
  show ?case
    by (simp add: chunk_text_default Cons.IH) (simp add: all_chunks_of_def)
qed


lemma all_chunks_of_origin:
  "c \<in> set (all_chunks_of page_chunks) \<Longrightarrow>
   \<exists>pc \<in> set page_chunks. page c = page pc \<and> source c = source pc \<and>
      text c \<in> set (sub_chunks (text pc))"
  by (auto simp: all_chunks_of_def)

lemma extract_pages_eq:
  "extract_pages path n (map Inr texts) acc =
   Inr (acc @ map (\<lambda>(i, t). \<lparr>page = i + 1, source = path_name path, text = t\<rparr>)
                (filter (\<lambda>(i, t). py_strip t \<noteq> []) (zip [n..<n + length texts] texts)))"
proof (induction texts arbitrary: n acc)
  case Nil
  show ?case by simp
next
  case (Cons t ts)
  have u: "[n..<n + length (t # ts)] = n # [Suc n..<Suc n + length ts]"
    by (subst upt_conv_Cons) simp_all
  have z: "zip [n..<n + length (t # ts)] (t # ts) = (n, t) # zip [Suc n..<Suc n + length ts] ts"
    unfolding u by simp
  show ?case
    unfolding z by (simp add: Cons.IH)
qed

lemma extract_all_pages:
  "extract_text_from_pdf path (Inr (map Inr texts)) = Inr (page_chunks_of (path_name path) texts)"
  using extract_pages_eq [of path 0 texts "[]"]
  by (simp add: extract_text_from_pdf_def page_chunks_of_def)

lemma extract_pages_fails:
  "extract_pages path n (map Inr texts @ Inl e # rest) acc = Inl e"
  by (induction texts arbitrary: n acc) simp_all

lemma upload_pdf_stores:
  assumes "endswith filename ''.pdf''"
    and "extract_text_from_pdf (path_join UPLOAD_DIR filename) pdf = Inr page_chunks"
  shows "upload_pdf env idx filename pdf = store_chunks env idx (all_chunks_of page_chunks)"
  using assms by (simp add: upload_pdf_def build_chunks_eq)

lemma sub_chunks_size: "c \<in> set (sub_chunks txt) \<Longrightarrow> length (py_split c) \<le> 500"
proof -
  assume c: "c \<in> set (sub_chunks txt)"
  have "chunk_text txt 500 50 =
        Inr (map (\<lambda>k. join '' '' (window (py_split txt) 500 50 k))
               [0..<(length (py_split txt) + nat (500 - 50) - 1) div nat (500 - 50)])"
    by (rule chunk_text_windows) simp_all
  then have "sub_chunks txt = map (\<lambda>k. join '' '' (window (py_split txt) 500 50 k))
               [0..<(length (py_split txt) + nat (500 - 50) - 1) div nat (500 - 50)]"
    by (simp only: sub_chunks_def sum.case)
  with c obtain k where "c = join '' '' (window (py_split txt) 500 50 k)" by auto
  then have "py_split c = window (py_split txt) 500 50 k" by (simp only: split_window)
  then show ?thesis by (simp add: window_def)
qed

lemma store_chunks_not_http:
  "fst (store_chunks env idx all_chunks) \<noteq> Inl (HTTPException code detail)"
  by (simp add: store_chunks_def Let_def split: sum.split prod.split option.split)

text \<open>
  Claim C6. A document that passes the check of its name and whose extraction gives no
  chunk at all (no page chunk, as for a PDF whose pages are all blank) is not answered
  by the handler alone: it calls the embedder and then the index with the empty batch,
  without a guard, and the outcome is theirs. An exception of either call ends the
  request as an unhandled failure; only when both return is the answer
  \<open>chunks_added = 0\<close>.
\<close>

theorem upload_pdf_zero_chunks_unguarded:
  assumes "endswith filename ''.pdf''"
    and "extract_text_from_pdf (path_join UPLOAD_DIR filename) pdf = Inr page_chunks"
    and "all_chunks_of page_chunks = []"
  shows "(\<forall>e. encode env [] = Inl e \<longrightarrow>
            upload_pdf env idx filename pdf = (Inl (Unhandled e), idx)) \<and>
         (\<forall>embeddings e idx'.
            encode env [] = Inr embeddings \<and>
            index_add env idx embeddings [] [] [] = (Some e, idx') \<longrightarrow>
            upload_pdf env idx filename pdf = (Inl (Unhandled e), idx')) \<and>
         (\<forall>embeddings idx'.
            encode env [] = Inr embeddings \<and>
            index_add env idx embeddings [] [] [] = (None, idx') \<longrightarrow>
            upload_pdf env idx filename pdf =
              (Inr \<lparr>message = ''PDF indexed successfully'', chunks_added = 0\<rparr>, idx'))"
proof -
  have "upload_pdf env idx filename pdf = store_chunks env idx []"
    using upload_pdf_stores [OF assms(1,2)] assms(3) by simp
  then show ?thesis by (simp add: store_chunks_def)
qed

theorem upload_pdf_zero_chunks_unguarded_witness:
  "endswith ''scan.pdf'' ''.pdf'' \<and>
   extract_text_from_pdf (path_join UPLOAD_DIR ''scan.pdf'') (Inr [Inr ''  '', Inr []]) = Inr [] \<and>
   upload_pdf strict_services [] ''scan.pdf'' (Inr [Inr ''  '', Inr []]) =
     (Inl (Unhandled ''Expected IDs to be a non-empty list, got 0 IDs''), []) \<and>
   upload_pdf demo_services [] ''scan.pdf'' (Inr [Inr ''  '', Inr []]) =
     (Inr \<lparr>message = ''PDF indexed successfully'', chunks_added = 0\<rparr>, [])"
proof -
  have a: "endswith ''scan.pdf'' ''.pdf''" by (simp add: endswith_def)
  have b: "extract_text_from_pdf (path_join UPLOAD_DIR ''scan.pdf'') (Inr [Inr ''  '', Inr []]) = Inr []"
    by (simp add: extract_text_from_pdf_def py_strip_def py_isspace_def)
  have c: "all_chunks_of [] = []" by (simp add: all_chunks_of_def)
  have d: "encode strict_services [] = Inr []" "encode demo_services [] = Inr []"
    by (simp_all add: strict_services_def demo_services_def)
  have e: "index_add strict_services [] [] [] [] [] =
           (Some ''Expected IDs to be a non-empty list, got 0 IDs'', [])"
    by (simp add: strict_services_def demo_services_def)
  have f: "index_add demo_services [] [] [] [] [] = (None, [])"
    by (simp add: demo_services_def)
  note t1 = upload_pdf_zero_chunks_unguarded [OF a b c, of strict_services "[]"]
  note t2 = upload_pdf_zero_chunks_unguarded [OF a b c, of demo_services "[]"]
  have "upload_pdf strict_services [] ''scan.pdf'' (Inr [Inr ''  '', Inr []]) =
     (Inl (Unhandled ''Expected IDs to be a non-empty list, got 0 IDs''), [])"
    using t1 d(1) e by blast
  moreover have "upload_pdf demo_services [] ''scan.pdf'' (Inr [Inr ''  '', Inr []]) =
     (Inr \<lparr>message = ''PDF indexed successfully'', chunks_added = 0\<rparr>, [])"
    using t2 d(2) f by blast
  ultimately show ?thesis using a b by blast
qed



text \<open>
  Claim C9. A file name that does not end in \<^verbatim>\<open>.pdf\<close> is refused with
  \<open>UnsupportedFormat\<close>; a reader that raises, on opening the file or on any page, is
  reported as \<open>ExtractionError\<close> with the cause; and whenever the upload fails with one
  of these (an \<^verbatim>\<open>HTTPException(400)\<close>), the state of the index at the end of the request
  is the state at its start.
\<close>

theorem upload_pdf_failure_keeps_index:
  "(\<not> endswith filename ''.pdf'' \<longrightarrow>
      upload_pdf env idx filename pdf = (Inl UnsupportedFormat, idx)) \<and>
   (endswith filename ''.pdf'' \<longrightarrow>
      (\<forall>e. pdf = Inl e \<longrightarrow> upload_pdf env idx filename pdf = (Inl (ExtractionError e), idx)) \<and>
      (\<forall>texts e rest. pdf = Inr (map Inr texts @ Inl e # rest) \<longrightarrow>
         upload_pdf env idx filename pdf = (Inl (ExtractionError e), idx))) \<and>
   (\<forall>detail. fst (upload_pdf env idx filename pdf) = Inl (HTTPException 400 detail) \<longrightarrow>
      snd (upload_pdf env idx filename pdf) = idx)"
proof (intro conjI impI allI)
  assume "\<not> endswith filename ''.pdf''"
  then show "upload_pdf env idx filename pdf = (Inl UnsupportedFormat, idx)"
    by (simp add: upload_pdf_def)
next
  fix e
  assume "endswith filename ''.pdf''" "pdf = Inl e"
  then show "upload_pdf env idx filename pdf = (Inl (ExtractionError e), idx)"
    by (simp add: upload_pdf_def extract_text_from_pdf_def)
next
  fix texts e rest
  assume "endswith filename ''.pdf''" "pdf = Inr (map Inr texts @ Inl e # rest)"
  then show "upload_pdf env idx filename pdf = (Inl (ExtractionError e), idx)"
    by (simp add: upload_pdf_def extract_text_from_pdf_def extract_pages_fails)
next
  fix detail
  assume f: "fst (upload_pdf env idx filename pdf) = Inl (HTTPException 400 detail)"
  show "snd (upload_pdf env idx filename pdf) = idx"
  proof (cases "endswith filename ''.pdf''")
    case False
    then show ?thesis by (simp add: upload_pdf_def)
  next
    case True
    show ?thesis
    proof (cases "extract_text_from_pdf (path_join UPLOAD_DIR filename) pdf")
      case (Inl e)
      with True show ?thesis by (simp add: upload_pdf_def)
    next
      case (Inr page_chunks)
      have "upload_pdf env idx filename pdf = store_chunks env idx (all_chunks_of page_chunks)"
        by (rule upload_pdf_stores [OF True Inr])
      with f store_chunks_not_http [of env idx "all_chunks_of page_chunks" 400 detail]
      show ?thesis by simp
    qed
  qed
qed

text \<open>
  Claim C10. The upload has no parameter for the chunking: for every page chunk the
  chunker runs with \<open>chunk_size = 500\<close> and \<open>overlap = 50\<close>, and every chunk handed to
  the index has at most 500 words.
\<close>

theorem upload_pdf_default_chunking:
  assumes "endswith filename ''.pdf''"
    and "extract_text_from_pdf (path_join UPLOAD_DIR filename) pdf = Inr page_chunks"
  shows "upload_pdf env idx filename pdf = store_chunks env idx (all_chunks_of page_chunks) \<and>
         build_chunks page_chunks [] = Inr (all_chunks_of page_chunks) \<and>
         (\<forall>pc \<in> set page_chunks. chunk_text (text pc) 500 50 = Inr (sub_chunks (text pc))) \<and>
         (\<forall>c \<in> set (all_chunks_of page_chunks). length (py_split (text c)) \<le> 500)"
proof (intro conjI ballI)
  show "upload_pdf env idx filename pdf = store_chunks env idx (all_chunks_of page_chunks)"
    by (rule upload_pdf_stores [OF assms])
  show "build_chunks page_chunks [] = Inr (all_chunks_of page_chunks)"
    by (simp add: build_chunks_eq)
next
  fix pc
  show "chunk_text (text pc) 500 50 = Inr (sub_chunks (text pc))"
    by (rule chunk_text_default)
next
  fix c
  assume "c \<in> set (all_chunks_of page_chunks)"
  then have "\<exists>pc \<in> set page_chunks. page c = page pc \<and> source c = source pc \<and>
      text c \<in> set (sub_chunks (text pc))"
    by (rule all_chunks_of_origin)
  then obtain pc :: chunk where "text c \<in> set (sub_chunks (text pc))"
    by (elim bexE conjE)
  then show "length (py_split (text c)) \<le> 500" by (rule sub_chunks_size)
qed

lemma split_all_space: "\<forall>c\<in>set cs. py_isspace c \<Longrightarrow> split_aux [] cs = []"
  by (induction cs) simp_all

lemma strip_nonempty:
  assumes "py_split t \<noteq> []"
  shows "py_strip t \<noteq> []"
proof -
  have "\<not> (\<forall>c\<in>set t. py_isspace c)"
    using assms split_all_space [of t] by (auto simp: py_split_def)
  then have u: "dropWhile py_isspace t \<noteq> []" by (simp add: dropWhile_eq_Nil_conv)
  then have "\<not> py_isspace (hd (dropWhile py_isspace t))" by (rule hd_dropWhile)
  moreover have "hd (dropWhile py_isspace t) \<in> set (rev (dropWhile py_isspace t))"
    using u by simp
  ultimately have "\<not> (\<forall>c\<in>set (rev (dropWhile py_isspace t)). py_isspace c)" by blast
  then have "dropWhile py_isspace (rev (dropWhile py_isspace t)) \<noteq> []"
    by (simp only: dropWhile_eq_Nil_conv not_False_eq_True)
  then show ?thesis by (simp add: py_strip_def)
qed

lemma chunk_text_600:
  assumes "length (py_split t) = 600"
  shows "chunk_text t 500 50 =
         Inr [join '' '' (take 500 (py_split t)), join '' '' (drop 450 (py_split t))]"
proof -
  have n: "(length (py_split t) + nat (500 - 50) - 1) div nat (500 - 50) = 2"
    unfolding assms by simp
  have u: "[0..<2] = [0, Suc 0]" by (simp add: upt_rec)
  have w0: "window (py_split t) 500 50 0 = take 500 (py_split t)" by (simp add: window_def)
  have w1: "window (py_split t) 500 50 (Suc 0) = drop 450 (py_split t)"
    using assms by (simp add: window_def)
  have "chunk_text t 500 50 =
        Inr (map (\<lambda>k. join '' '' (window (py_split t) 500 50 k))
               [0..<(length (py_split t) + nat (500 - 50) - 1) div nat (500 - 50)])"
    by (rule chunk_text_windows) simp_all
  then show ?thesis unfolding n u by (simp only: list.map w0 w1)
qed

lemma chunk_text_10:
  assumes "length (py_split t) = 10"
  shows "chunk_text t 500 50 = Inr [join '' '' (py_split t)]"
proof -
  have n: "(length (py_split t) + nat (500 - 50) - 1) div nat (500 - 50) = 1"
    unfolding assms by simp
  have u: "[0..<1] = [0]" by (simp add: upt_rec)
  have w0: "window (py_split t) 500 50 0 = py_split t" using assms by (simp add: window_def)
  have "chunk_text t 500 50 =
        Inr (map (\<lambda>k. join '' '' (window (py_split t) 500 50 k))
               [0..<(length (py_split t) + nat (500 - 50) - 1) div nat (500 - 50)])"
    by (rule chunk_text_windows) simp_all
  then show ?thesis unfolding n u by (simp only: list.map w0)
qed

lemma split_join_sublist:
  assumes "set ws \<subseteq> set (py_split t)"
  shows "py_split (join '' '' ws) = ws"
proof (rule split_join, rule ballI)
  fix x
  assume "x \<in> set ws"
  then have "x \<in> set (py_split t)" using assms by (rule subsetD [rotated])
  then show "x \<noteq> [] \<and> (\<forall>c\<in>set x. \<not> py_isspace c)" by (rule py_split_word)
qed

text \<open>
  Claim C8. A document of two pages, of 600 and of 10 words: the first page gives the
  two chunks of its words \<open>[0, 500)\<close> and \<open>[450, 600)\<close>, the second page one chunk,
  and the upload answers \<open>chunks_added = 3\<close>, the embedder and the index accepting
  the three chunks.
\<close>

theorem upload_pdf_two_pages:
  assumes "endswith filename ''.pdf''"
    and "length (py_split t1) = 600"
    and "length (py_split t2) = 10"
    and "name = path_name (path_join UPLOAD_DIR filename)"
    and "chunks = [join '' '' (take 500 (py_split t1)), join '' '' (drop 450 (py_split t1)),
                   join '' '' (py_split t2)]"
    and "encode env chunks = Inr embeddings"
    and "index_add env idx embeddings chunks
           [\<lparr>page = 1, source = name\<rparr>, \<lparr>page = 1, source = name\<rparr>, \<lparr>page = 2, source = name\<rparr>]
           (map (uuid4 env) [0..<3]) = (None, idx')"
  shows "chunk_text t1 500 50 =
           Inr [join '' '' (take 500 (py_split t1)), join '' '' (drop 450 (py_split t1))] \<and>
         chunk_text t2 500 50 = Inr [join '' '' (py_split t2)] \<and>
         py_split (join '' '' (take 500 (py_split t1))) = take 500 (py_split t1) \<and>
         py_split (join '' '' (drop 450 (py_split t1))) = drop 450 (py_split t1) \<and>
         upload_pdf env idx filename (Inr [Inr t1, Inr t2]) =
           (Inr \<lparr>message = ''PDF indexed successfully'', chunks_added = 3\<rparr>, idx')"
proof (intro conjI)
  show c1: "chunk_text t1 500 50 =
           Inr [join '' '' (take 500 (py_split t1)), join '' '' (drop 450 (py_split t1))]"
    by (rule chunk_text_600 [OF assms(2)])
  show c2: "chunk_text t2 500 50 = Inr [join '' '' (py_split t2)]"
    by (rule chunk_text_10 [OF assms(3)])
  show "py_split (join '' '' (take 500 (py_split t1))) = take 500 (py_split t1)"
    by (rule split_join_sublist [of _ t1]) (rule set_take_subset)
  show "py_split (join '' '' (drop 450 (py_split t1))) = drop 450 (py_split t1)"
    by (rule split_join_sublist [of _ t1]) (rule set_drop_subset)
  have s1: "py_strip t1 \<noteq> []" by (rule strip_nonempty) (use assms(2) in auto)
  have s2: "py_strip t2 \<noteq> []" by (rule strip_nonempty) (use assms(3) in auto)
  have pcs: "page_chunks_of name [t1, t2] =
             [\<lparr>page = 1, source = name, text = t1\<rparr>, \<lparr>page = 2, source = name, text = t2\<rparr>]"
    using s1 s2 by (simp add: page_chunks_of_def upt_rec)
  have ex: "extract_text_from_pdf (path_join UPLOAD_DIR filename) (Inr (map Inr [t1, t2])) =
            Inr (page_chunks_of name [t1, t2])"
    unfolding assms(4) by (rule extract_all_pages)
  have sc: "sub_chunks t1 = [join '' '' (take 500 (py_split t1)), join '' '' (drop 450 (py_split t1))]"
    "sub_chunks t2 = [join '' '' (py_split t2)]"
    by (simp_all add: sub_chunks_def c1 c2)
  have all: "all_chunks_of (page_chunks_of name [t1, t2]) =
        [\<lparr>page = 1, source = name, text = join '' '' (take 500 (py_split t1))\<rparr>,
         \<lparr>page = 1, source = name, text = join '' '' (drop 450 (py_split t1))\<rparr>,
         \<lparr>page = 2, source = name, text = join '' '' (py_split t2)\<rparr>]"
    unfolding pcs by (simp add: all_chunks_of_def sc)
  have "upload_pdf env idx filename (Inr (map Inr [t1, t2])) =
        store_chunks env idx (all_chunks_of (page_chunks_of name [t1, t2]))"
    by (rule upload_pdf_stores [OF assms(1) ex])
  also have "\<dots> = (Inr \<lparr>message = ''PDF indexed successfully'', chunks_added = 3\<rparr>, idx')"
    unfolding all using assms(6,7) unfolding assms(5)
    by (simp add: store_chunks_def upt_rec)
  finally show "upload_pdf env idx filename (Inr [Inr t1, Inr t2]) =
           (Inr \<lparr>message = ''PDF indexed successfully'', chunks_added = 3\<rparr>, idx')"
    by simp
qed

lemma demo_path: "path_name (path_join UPLOAD_DIR ''a.pdf'') = ''a.pdf''"
  by (simp add: path_name_def path_join_def UPLOAD_DIR_def)

lemma demo_ends: "endswith ''a.pdf'' ''.pdf''"
  by (simp add: endswith_def)

lemma demo_split:
  "py_split ''hello world'' = [''hello'', ''world'']"
  "py_split ''third page'' = [''third'', ''page'']"
  by (simp_all add: py_split_def py_isspace_def)

lemma demo_sub_chunks:
  "sub_chunks ''hello world'' = [''hello world'']"
  "sub_chunks ''third page'' = [''third page'']"
  by (simp_all add: sub_chunks_def chunk_text_windows demo_split window_def upt_rec)




theorem upload_pdf_failure_keeps_index_witness:
  "upload_pdf demo_services [(''old'', \<lparr>page = 1, source = ''old.pdf''\<rparr>)] ''notes.txt'' (Inr []) =
     (Inl UnsupportedFormat, [(''old'', \<lparr>page = 1, source = ''old.pdf''\<rparr>)]) \<and>
   upload_pdf demo_services [(''old'', \<lparr>page = 1, source = ''old.pdf''\<rparr>)] ''a.pdf''
       (Inr [Inr ''hello world'', Inl ''boom'', Inr ''third page'']) =
     (Inl (ExtractionError ''boom''), [(''old'', \<lparr>page = 1, source = ''old.pdf''\<rparr>)])"
proof -
  have n: "\<not> endswith ''notes.txt'' ''.pdf''" by (simp add: endswith_def)
  have p: "Inr [Inr ''hello world'', Inl ''boom'', Inr ''third page''] =
           (Inr (map Inr [''hello world''] @ Inl ''boom'' # [Inr ''third page'']) :: pdf_reader)"
    by simp
  show ?thesis
    using upload_pdf_failure_keeps_index
            [of "''notes.txt''" demo_services "[(''old'', \<lparr>page = 1, source = ''old.pdf''\<rparr>)]" "Inr []"]
          upload_pdf_failure_keeps_index
            [of "''a.pdf''" demo_services "[(''old'', \<lparr>page = 1, source = ''old.pdf''\<rparr>)]"
                "Inr [Inr ''hello world'', Inl ''boom'', Inr ''third page'']"]
          n demo_ends p
    by blast
qed

theorem upload_pdf_default_chunking_witness:
  "endswith ''a.pdf'' ''.pdf'' \<and>
   extract_text_from_pdf (path_join UPLOAD_DIR ''a.pdf'') (Inr [Inr ''hello world'']) =
     Inr [\<lparr>page = 1, source = ''a.pdf'', text = ''hello world''\<rparr>] \<and>
   upload_pdf demo_services [] ''a.pdf'' (Inr [Inr ''hello world'']) =
     store_chunks demo_services [] [\<lparr>page = 1, source = ''a.pdf'', text = ''hello world''\<rparr>] \<and>
   chunk_text ''hello world'' 500 50 = Inr [''hello world''] \<and>
   length (py_split ''hello world'') \<le> 500"
proof -
  have ex: "extract_text_from_pdf (path_join UPLOAD_DIR ''a.pdf'') (Inr [Inr ''hello world'']) =
     Inr [\<lparr>page = 1, source = ''a.pdf'', text = ''hello world''\<rparr>]"
    by (simp add: extract_text_from_pdf_def demo_path py_strip_def py_isspace_def)
  have al: "all_chunks_of [\<lparr>page = 1, source = ''a.pdf'', text = ''hello world''\<rparr>] =
            [\<lparr>page = 1, source = ''a.pdf'', text = ''hello world''\<rparr>]"
    by (simp add: all_chunks_of_def demo_sub_chunks)
  note t = upload_pdf_default_chunking [OF demo_ends ex, of demo_services "[]", unfolded al]
  show ?thesis using t demo_ends ex by (simp add: demo_sub_chunks)
qed

lemma split_replicate: "split_aux [] (concat (replicate n ''w '')) = replicate n ''w''"
  by (induction n) (simp_all add: py_isspace_def)

theorem upload_pdf_two_pages_witness:
  "endswith ''a.pdf'' ''.pdf'' \<and>
   length (py_split (concat (replicate 600 ''w ''))) = 600 \<and>
   length (py_split (concat (replicate 10 ''w ''))) = 10 \<and>
   fst (upload_pdf demo_services [] ''a.pdf''
          (Inr [Inr (concat (replicate 600 ''w '')), Inr (concat (replicate 10 ''w ''))])) =
     Inr \<lparr>message = ''PDF indexed successfully'', chunks_added = 3\<rparr>"
proof -
  define t1 where "t1 = concat (replicate 600 ''w '')"
  define t2 where "t2 = concat (replicate 10 ''w '')"
  define chunks where "chunks = [join '' '' (take 500 (py_split t1)),
     join '' '' (drop 450 (py_split t1)), join '' '' (py_split t2)]"
  define metas where "metas = [\<lparr>page = 1, source = path_name (path_join UPLOAD_DIR ''a.pdf'')\<rparr>,
     \<lparr>page = 1, source = path_name (path_join UPLOAD_DIR ''a.pdf'')\<rparr>,
     \<lparr>page = 2, source = path_name (path_join UPLOAD_DIR ''a.pdf'')\<rparr>]"
  have l1: "length (py_split t1) = 600"
    unfolding t1_def py_split_def split_replicate by (rule length_replicate)
  have l2: "length (py_split t2) = 10"
    unfolding t2_def py_split_def split_replicate by (rule length_replicate)
  have d: "encode demo_services chunks = Inr (map length chunks)"
    by (simp add: demo_services_def)
  have e: "index_add demo_services [] (map length chunks) chunks metas
             (map (uuid4 demo_services) [0..<3]) = (None, [] @ zip chunks metas)"
    by (simp add: demo_services_def)
  note t = upload_pdf_two_pages [OF demo_ends l1 l2 refl chunks_def d e [unfolded metas_def]]
  then have "upload_pdf demo_services [] ''a.pdf'' (Inr [Inr t1, Inr t2]) =
      (Inr \<lparr>message = ''PDF indexed successfully'', chunks_added = 3\<rparr>,
       [] @ zip chunks [\<lparr>page = 1, source = path_name (path_join UPLOAD_DIR ''a.pdf'')\<rparr>,
     \<lparr>page = 1, source = path_name (path_join UPLOAD_DIR ''a.pdf'')\<rparr>,
     \<lparr>page = 2, source = path_name (path_join UPLOAD_DIR ''a.pdf'')\<rparr>])"
    by blast
  then have "fst (upload_pdf demo_services [] ''a.pdf'' (Inr [Inr t1, Inr t2])) =
      Inr \<lparr>message = ''PDF indexed successfully'', chunks_added = 3\<rparr>"
    by (simp only: fst_conv)
  then show ?thesis using demo_ends l1 l2 unfolding t1_def t2_def by blast
qed

section \<open>Retrieval and grounding: lemmas and claims\<close>

lemma context_loop_eq:
  "context_loop i xs parts cits =
     (parts @ map (\<lambda>(k, doc, meta). ''[Source '' @ str_nat (k + 1) @ ''] '' @ doc)
                (zip [i..<i + length xs] xs),
      cits @ map (\<lambda>(doc, meta). \<lparr>page = page meta, source = source meta, text = doc\<rparr>) xs)"
proof (induction xs arbitrary: i parts cits)
  case Nil
  show ?case by simp
next
  case (Cons x xs)
  obtain doc meta where x: "x = (doc, meta)" by (cases x)
  have u: "[i..<Suc (i + length xs)] = i # [Suc i..<Suc (i + length xs)]"
    by (rule upt_conv_Cons) simp
  show ?case unfolding x by (simp add: Cons.IH u del: upt_Suc)
qed

lemma context_loop_indexed:
  assumes "length metas = length docs"
  shows "context_loop 0 (zip docs metas) [] [] =
     (map (\<lambda>i. ''[Source '' @ str_nat (i + 1) @ ''] '' @ docs ! i) [0..<length docs],
      map (\<lambda>i. \<lparr>page = page (metas ! i), source = source (metas ! i), text = docs ! i\<rparr>)
        [0..<length docs])"
proof -
  have l: "length (zip docs metas) = length docs" using assms by simp
  have a: "map (\<lambda>(k, doc, meta). ''[Source '' @ str_nat (k + 1) @ ''] '' @ doc)
                (zip [0..<0 + length (zip docs metas)] (zip docs metas)) =
           map (\<lambda>i. ''[Source '' @ str_nat (i + 1) @ ''] '' @ docs ! i) [0..<length docs]"
    by (rule nth_equalityI) (simp_all add: l assms)
  have b: "map (\<lambda>(doc, meta). \<lparr>page = page meta, source = source meta, text = doc\<rparr>)
             (zip docs metas) =
           map (\<lambda>i. \<lparr>page = page (metas ! i), source = source (metas ! i), text = docs ! i\<rparr>)
             [0..<length docs]"
    by (rule nth_equalityI) (simp_all add: assms)
  show ?thesis unfolding context_loop_eq a b by simp
qed

lemma call_ollama_status: "call_ollama r = Inl (HTTPException code detail) \<Longrightarrow> code = 500"
  by (cases r) (simp_all add: call_ollama_def)

lemma make_answer_not_http: "make_answer a cits \<noteq> Inl (HTTPException code detail)"
  by (simp add: make_answer_def split: json.split option.split)

lemma make_answer_citations: "make_answer a cits = Inr resp \<Longrightarrow> citations resp = cits"
  by (auto simp: make_answer_def split: json.splits option.splits)

lemma ask_question_retrieved:
  assumes "encode env [question request] = Inr (v # vs)"
    and "index_query env idx v (top_k request) = Inr results"
    and "documents results \<noteq> []"
  shows "ask_question env idx request =
     (case context_loop 0 (zip (documents results) (metadatas results)) [] [] of
        (context_parts, cits) \<Rightarrow>
          (case call_ollama (post env (build_prompt (join (newline @ newline) context_parts)
                                        (question request))) of
             Inl e \<Rightarrow> Inl e
           | Inr a \<Rightarrow> make_answer a cits))"
  using assms by (simp add: ask_question_def Let_def)

lemma read_nat_snoc: "read_nat (s @ [c]) = 10 * read_nat s + (of_char c - 48)"
  by (simp add: read_nat_def)

lemma read_nat_digit: "n < 10 \<Longrightarrow> read_nat [char_of (48 + n)] = n"
  by (simp add: read_nat_def)

lemma read_nat_str_nat: "read_nat (str_nat n) = n"
proof (induction n rule: str_nat.induct)
  case (1 n)
  show ?case
  proof (cases "n < 10")
    case True
    then show ?thesis by (subst str_nat.simps) (simp add: read_nat_digit)
  next
    case False
    have d: "of_char (char_of (48 + n mod 10) :: char) - 48 = n mod 10"
      by simp
    have "read_nat (str_nat n) = read_nat (str_nat (n div 10) @ [char_of (48 + n mod 10)])"
      using False by (subst str_nat.simps) simp
    also have "\<dots> = 10 * (n div 10) + n mod 10"
      unfolding read_nat_snoc d using "1.IH" [OF False] by simp
    finally show ?thesis by simp
  qed
qed

text \<open>
  Claim C3. When the index answers the query with the documents and as many metadata
  entries, in its order, and at least one document, the prompt the handler sends to the
  generator is the fixed instruction, then \<^verbatim>\<open>Context:\<close> and the documents in the order
  of the index, document \<open>i\<close> (counted from 0) after the label \<^verbatim>\<open>[Source i+1]\<close> and
  separated by blank lines, then the question and the request to cite. Every answer
  returned has exactly one citation per retrieved document, citation \<open>i\<close> built from
  document \<open>i\<close> and its metadata, so \<open>k\<close> retrieved documents give \<open>k\<close> citations. The
  number in a label is the decimal numeral of the rank: read back, it is \<open>i + 1\<close>.
\<close>

theorem ask_question_prompt_and_citations:
  assumes "encode env [question request] = Inr (v # vs)"
    and "index_query env idx v (top_k request) = Inr results"
    and "documents results \<noteq> []"
    and "length (metadatas results) = length (documents results)"
  shows "ask_question env idx request =
           (case call_ollama (post env
              (''Based on the following context from documents, answer the question. If the answer is not in the context, say so.''
               @ [CHR 0x0A, CHR 0x0A] @ ''Context:'' @ [CHR 0x0A]
               @ join [CHR 0x0A, CHR 0x0A]
                   (map (\<lambda>i. ''[Source '' @ str_nat (i + 1) @ ''] '' @ documents results ! i)
                      [0..<length (documents results)])
               @ [CHR 0x0A, CHR 0x0A] @ ''Question: '' @ question request
               @ [CHR 0x0A, CHR 0x0A] @ ''Answer (cite sources using [Source N] notation):'')) of
              Inl e \<Rightarrow> Inl e
            | Inr a \<Rightarrow>
                make_answer a
                  (map (\<lambda>i. \<lparr>page = page (metadatas results ! i),
                             source = source (metadatas results ! i),
                             text = documents results ! i\<rparr>)
                     [0..<length (documents results)])) \<and>
         (\<forall>resp. ask_question env idx request = Inr resp \<longrightarrow>
            length (citations resp) = length (documents results) \<and>
            (\<forall>i < length (documents results).
               citations resp ! i =
                 \<lparr>page = page (metadatas results ! i), source = source (metadatas results ! i),
                  text = documents results ! i\<rparr>)) \<and>
         (\<forall>i. read_nat (str_nat (i + 1)) = i + 1)"
proof (intro conjI allI impI)
  define parts where "parts =
    map (\<lambda>i. ''[Source '' @ str_nat (i + 1) @ ''] '' @ documents results ! i)
      [0..<length (documents results)]"
  define cits where "cits =
    map (\<lambda>i. \<lparr>page = page (metadatas results ! i), source = source (metadatas results ! i),
               text = documents results ! i\<rparr>) [0..<length (documents results)]"
  have cl: "context_loop 0 (zip (documents results) (metadatas results)) [] [] = (parts, cits)"
    unfolding parts_def cits_def by (rule context_loop_indexed [OF assms(4)])
  have pr: "build_prompt (join (newline @ newline) parts) (question request) =
      ''Based on the following context from documents, answer the question. If the answer is not in the context, say so.''
               @ [CHR 0x0A, CHR 0x0A] @ ''Context:'' @ [CHR 0x0A]
               @ join [CHR 0x0A, CHR 0x0A] parts
               @ [CHR 0x0A, CHR 0x0A] @ ''Question: '' @ question request
               @ [CHR 0x0A, CHR 0x0A] @ ''Answer (cite sources using [Source N] notation):''"
    by (simp add: build_prompt_def newline_def)
  have eq: "ask_question env idx request =
      (case call_ollama (post env (build_prompt (join (newline @ newline) parts) (question request))) of
         Inl e \<Rightarrow> Inl e | Inr a \<Rightarrow> make_answer a cits)"
    unfolding ask_question_retrieved [OF assms(1-3)] cl by simp
  show "ask_question env idx request =
           (case call_ollama (post env
              (''Based on the following context from documents, answer the question. If the answer is not in the context, say so.''
               @ [CHR 0x0A, CHR 0x0A] @ ''Context:'' @ [CHR 0x0A]
               @ join [CHR 0x0A, CHR 0x0A]
                   (map (\<lambda>i. ''[Source '' @ str_nat (i + 1) @ ''] '' @ documents results ! i)
                      [0..<length (documents results)])
               @ [CHR 0x0A, CHR 0x0A] @ ''Question: '' @ question request
               @ [CHR 0x0A, CHR 0x0A] @ ''Answer (cite sources using [Source N] notation):'')) of
              Inl e \<Rightarrow> Inl e
            | Inr a \<Rightarrow>
                make_answer a
                  (map (\<lambda>i. \<lparr>page = page (metadatas results ! i),
                             source = source (metadatas results ! i),
                             text = documents results ! i\<rparr>)
                     [0..<length (documents results)]))"
    using eq unfolding pr unfolding parts_def cits_def .
  have c: "citations resp = cits" if "ask_question env idx request = Inr resp" for resp
  proof (cases "call_ollama (post env (build_prompt (join (newline @ newline) parts)
                                          (question request)))")
    case (Inl e)
    with eq that show ?thesis by simp
  next
    case (Inr a)
    with eq that have "make_answer a cits = Inr resp" by simp
    then show ?thesis by (rule make_answer_citations)
  qed
  {
    fix resp
    assume r: "ask_question env idx request = Inr resp"
    show "length (citations resp) = length (documents results)"
      unfolding c [OF r] by (simp add: cits_def)
    fix i
    assume "i < length (documents results)"
    then show "citations resp ! i =
                 \<lparr>page = page (metadatas results ! i), source = source (metadatas results ! i),
                  text = documents results ! i\<rparr>"
      unfolding c [OF r] by (simp add: cits_def)
  }
  fix i
  show "read_nat (str_nat (i + 1)) = i + 1" by (rule read_nat_str_nat)
qed

theorem ask_question_prompt_and_citations_witness:
  "ask_question echo_services
     [(''alpha'', \<lparr>page = 4, source = ''a.pdf''\<rparr>), (''beta'', \<lparr>page = 2, source = ''b.pdf''\<rparr>),
      (''gamma'', \<lparr>page = 9, source = ''c.pdf''\<rparr>)]
     \<lparr>question = ''why?'', top_k = 2\<rparr> =
   Inr \<lparr>answer =
          ''Based on the following context from documents, answer the question. If the answer is not in the context, say so.''
          @ [CHR 0x0A, CHR 0x0A] @ ''Context:'' @ [CHR 0x0A]
          @ ''[Source 1] alpha'' @ [CHR 0x0A, CHR 0x0A] @ ''[Source 2] beta''
          @ [CHR 0x0A, CHR 0x0A] @ ''Question: why?''
          @ [CHR 0x0A, CHR 0x0A] @ ''Answer (cite sources using [Source N] notation):'',
        citations = [\<lparr>page = 4, source = ''a.pdf'', text = ''alpha''\<rparr>,
                     \<lparr>page = 2, source = ''b.pdf'', text = ''beta''\<rparr>]\<rparr>"
proof -
  define idx where "idx = [(''alpha'', \<lparr>page = 4, source = ''a.pdf''\<rparr>),
      (''beta'', \<lparr>page = 2, source = ''b.pdf''\<rparr>), (''gamma'', \<lparr>page = 9, source = ''c.pdf''\<rparr>)]"
  define request where "request = \<lparr>question = ''why?'', top_k = 2\<rparr>"
  define results where "results = \<lparr>documents = [''alpha'', ''beta''],
      metadatas = [\<lparr>page = 4, source = ''a.pdf''\<rparr>, \<lparr>page = 2, source = ''b.pdf''\<rparr>]\<rparr>"
  have e: "encode echo_services [question request] = Inr (4 # [])"
    by (simp add: echo_services_def demo_services_def request_def)
  have q: "index_query echo_services idx 4 (top_k request) = Inr results"
    by (simp add: echo_services_def demo_services_def request_def idx_def results_def)
  have ne: "documents results \<noteq> []" by (simp add: results_def)
  have len: "length (metadatas results) = length (documents results)" by (simp add: results_def)
  have u: "[0..<2] = [0, Suc 0]" by (simp add: upt_rec)
  have s: "str_nat (Suc 0) = ''1''" "str_nat (Suc (Suc 0)) = ''2''" by code_simp+
  have p: "post echo_services x = JsonObject [(''response'', JString x)]" for x
    by (simp add: echo_services_def demo_services_def)
  note t = ask_question_prompt_and_citations [OF e q ne len, THEN conjunct1]
  show ?thesis
    unfolding idx_def [symmetric] request_def [symmetric] t p
    by (simp add: call_ollama_def make_answer_def results_def request_def u s)
qed

text \<open>
  Claim C4. The request fails with \<open>NoDocumentsIndexed\<close> exactly when the question was
  embedded, the index answered the query, and it answered with no document. No
  threshold is applied: with one document or more the handler goes on to the generator.
\<close>

theorem ask_question_no_documents:
  "(ask_question env idx request = Inl NoDocumentsIndexed) =
   (\<exists>v vs results. encode env [question request] = Inr (v # vs) \<and>
      index_query env idx v (top_k request) = Inr results \<and> documents results = [])"
proof (cases "encode env [question request]")
  case (Inl e)
  then show ?thesis by (simp add: ask_question_def)
next
  case enc: (Inr vecs)
  show ?thesis
  proof (cases vecs)
    case Nil
    with enc show ?thesis by (simp add: ask_question_def)
  next
    case (Cons v vs)
    show ?thesis
    proof (cases "index_query env idx v (top_k request)")
      case (Inl e)
      with enc Cons show ?thesis by (simp add: ask_question_def)
    next
      case q: (Inr results)
      show ?thesis
      proof (cases "documents results = []")
        case True
        with enc Cons q show ?thesis by (simp add: ask_question_def)
      next
        case False
        obtain parts cits where cl:
          "context_loop 0 (zip (documents results) (metadatas results)) [] [] = (parts, cits)"
          by (cases "context_loop 0 (zip (documents results) (metadatas results)) [] []")
        have eq: "ask_question env idx request =
            (case call_ollama (post env (build_prompt (join (newline @ newline) parts)
                                          (question request))) of
               Inl e \<Rightarrow> Inl e
             | Inr a \<Rightarrow> make_answer a cits)"
          using enc Cons q False
          by (simp add: ask_question_retrieved [of env request v vs idx results] cl)
        have "ask_question env idx request \<noteq> Inl NoDocumentsIndexed"
        proof (cases "call_ollama (post env (build_prompt (join (newline @ newline) parts)
                                          (question request)))")
          case (Inl e)
          then show ?thesis using eq call_ollama_status [of _ 404] by auto
        next
          case (Inr a)
          then show ?thesis using eq make_answer_not_http [of a cits 404] by simp
        qed
        with enc Cons q False show ?thesis by simp
      qed
    qed
  qed
qed

theorem ask_question_no_documents_witness:
  "ask_question demo_services [] \<lparr>question = ''why?'', top_k = 3\<rparr> = Inl NoDocumentsIndexed \<and>
   ask_question demo_services [(''alpha'', \<lparr>page = 4, source = ''a.pdf''\<rparr>)]
     \<lparr>question = ''why?'', top_k = 3\<rparr> \<noteq> Inl NoDocumentsIndexed"
proof -
  have a: "\<exists>v vs results. encode demo_services [question \<lparr>question = ''why?'', top_k = 3\<rparr>] = Inr (v # vs) \<and>
      index_query demo_services [] v (top_k \<lparr>question = ''why?'', top_k = 3\<rparr>) = Inr results \<and>
      documents results = []"
    by (simp add: demo_services_def)
  have b: "\<not> (\<exists>v vs results. encode demo_services [question \<lparr>question = ''why?'', top_k = 3\<rparr>] = Inr (v # vs) \<and>
      index_query demo_services [(''alpha'', \<lparr>page = 4, source = ''a.pdf''\<rparr>)] v
        (top_k \<lparr>question = ''why?'', top_k = 3\<rparr>) = Inr results \<and>
      documents results = [])"
    by (auto simp: demo_services_def)
  show ?thesis
    using a b
      ask_question_no_documents [of demo_services "[]" "\<lparr>question = ''why?'', top_k = 3\<rparr>"]
      ask_question_no_documents [of demo_services "[(''alpha'', \<lparr>page = 4, source = ''a.pdf''\<rparr>)]"
         "\<lparr>question = ''why?'', top_k = 3\<rparr>"]
    by blast
qed

text \<open>
  Claim C5 as stated fails: when the generator answers with a JSON object that has no
  \<^verbatim>\<open>response\<close> field, the handler returns an answer with the empty text.
\<close>

theorem ask_question_missing_field_empty_answer:
  "ask_question
     (demo_services\<lparr>post := \<lambda>prompt. JsonObject [(''model'', JString ''llama3''),
                                                   (''done'', JOther None)]\<rparr>)
     [(''alpha'', \<lparr>page = 4, source = ''a.pdf''\<rparr>)] \<lparr>question = ''why?'', top_k = 3\<rparr> =
   Inr \<lparr>answer = [], citations = [\<lparr>page = 4, source = ''a.pdf'', text = ''alpha''\<rparr>]\<rparr>"
  by (simp add: ask_question_def demo_services_def call_ollama_def make_answer_def Let_def)

text \<open>
  Claim C5, as amended. After a retrieval that gave at least one document: a POST that
  raises (a timeout), a response refused by \<^verbatim>\<open>raise_for_status\<close>, a body that is not
  JSON and a JSON body that is not an object all fail with \<open>GenerationError\<close> carrying
  the cause; a JSON object without the \<^verbatim>\<open>response\<close> field gives an answer with the
  empty text, the default of \<^verbatim>\<open>result.get("response", "")\<close>.
\<close>

theorem ask_question_generator_outcomes:
  assumes "encode env [question request] = Inr (v # vs)"
    and "index_query env idx v (top_k request) = Inr results"
    and "documents results \<noteq> []"
    and "context_loop 0 (zip (documents results) (metadatas results)) [] [] = (context_parts, cits)"
    and "prompt = build_prompt (join (newline @ newline) context_parts) (question request)"
  shows "(\<forall>e. post env prompt = PostRaised e \<longrightarrow>
            ask_question env idx request = Inl (GenerationError e)) \<and>
         (\<forall>e. post env prompt = StatusRaised e \<longrightarrow>
            ask_question env idx request = Inl (GenerationError e)) \<and>
         (\<forall>e. post env prompt = JsonRaised e \<longrightarrow>
            ask_question env idx request = Inl (GenerationError e)) \<and>
         (\<forall>ty. post env prompt = JsonOther ty \<longrightarrow>
            ask_question env idx request =
              Inl (GenerationError ([CHR 0x27] @ ty @ [CHR 0x27] @ '' object has no attribute ''
                                    @ [CHR 0x27] @ ''get'' @ [CHR 0x27]))) \<and>
         (\<forall>obj. post env prompt = JsonObject obj \<and> map_of obj ''response'' = None \<longrightarrow>
            ask_question env idx request = Inr \<lparr>answer = [], citations = cits\<rparr>)"
proof -
  have eq: "ask_question env idx request =
      (case call_ollama (post env prompt) of Inl e \<Rightarrow> Inl e | Inr a \<Rightarrow> make_answer a cits)"
    unfolding ask_question_retrieved [OF assms(1-3)] assms(4,5) by simp
  show ?thesis
    unfolding eq by (simp add: call_ollama_def make_answer_def)
qed

theorem ask_question_generator_outcomes_witness:
  "ask_question (demo_services\<lparr>post := \<lambda>prompt. PostRaised ''timed out''\<rparr>)
     [(''alpha'', \<lparr>page = 4, source = ''a.pdf''\<rparr>)] \<lparr>question = ''why?'', top_k = 3\<rparr> =
   Inl (GenerationError ''timed out'') \<and>
   ask_question (demo_services\<lparr>post := \<lambda>prompt. JsonObject []\<rparr>)
     [(''alpha'', \<lparr>page = 4, source = ''a.pdf''\<rparr>)] \<lparr>question = ''why?'', top_k = 3\<rparr> =
   Inr \<lparr>answer = [], citations = [\<lparr>page = 4, source = ''a.pdf'', text = ''alpha''\<rparr>]\<rparr>"
proof -
  define idx where "idx = [(''alpha'', \<lparr>page = 4, source = ''a.pdf''\<rparr>)]"
  define request where "request = \<lparr>question = ''why?'', top_k = 3\<rparr>"
  define results where "results = \<lparr>documents = [''alpha''],
      metadatas = [\<lparr>page = 4, source = ''a.pdf''\<rparr>]\<rparr>"
  have e: "encode (demo_services\<lparr>post := p\<rparr>) [question request] = Inr (4 # [])" for p
    by (simp add: demo_services_def request_def)
  have q: "index_query (demo_services\<lparr>post := p\<rparr>) idx 4 (top_k request) = Inr results" for p
    by (simp add: demo_services_def request_def idx_def results_def)
  have ne: "documents results \<noteq> []" by (simp add: results_def)
  have cl: "context_loop 0 (zip (documents results) (metadatas results)) [] [] =
      ([''[Source '' @ str_nat (0 + 1) @ ''] '' @ ''alpha''],
       [\<lparr>page = 4, source = ''a.pdf'', text = ''alpha''\<rparr>])"
    by (simp add: results_def)
  note t1 = ask_question_generator_outcomes
    [OF e [of "\<lambda>prompt. PostRaised ''timed out''"] q [of "\<lambda>prompt. PostRaised ''timed out''"]
        ne cl refl]
  note t2 = ask_question_generator_outcomes
    [OF e [of "\<lambda>prompt. JsonObject []"] q [of "\<lambda>prompt. JsonObject []"] ne cl refl]
  have "ask_question (demo_services\<lparr>post := \<lambda>prompt. PostRaised ''timed out''\<rparr>) idx request =
        Inl (GenerationError ''timed out'')"
    using t1 by simp
  moreover have "ask_question (demo_services\<lparr>post := \<lambda>prompt. JsonObject []\<rparr>) idx request =
        Inr \<lparr>answer = [], citations = [\<lparr>page = 4, source = ''a.pdf'', text = ''alpha''\<rparr>]\<rparr>"
    using t2 by simp
  ultimately show ?thesis unfolding idx_def request_def by simp
qed

end
